theory Spec2Isabelle
  imports Complex_Main
begin

section \<open>The pill splitter: data model\<close>

text \<open>
  The component \<open>PillSplitter\<close> keeps a list of pills, one optional pill under
  construction, the flags of the running gesture and two mutable references (the id
  counter \<open>nextIdRef\<close> and the flag \<open>hasMoved\<close>).  JavaScript numbers are modelled as
  real numbers, the id counter as a natural number.  The rounding of the doubles is
  modelled for the click, in \<open>clickPillR\<close>, where the exactness of a split depends on
  it.  The fields of the interface \<open>Pill\<close> carry the prefix
  \<open>pill_\<close>, since \<open>id\<close>, \<open>x\<close> and \<open>y\<close> are taken in HOL.

  Each handler is a function from the state before the event to the state after it: it
  reads the state cells of the last render (the component renders again between two
  events), writes the references at once, and each state updater function it queues
  runs once.  Coordinates are the surface-local ones that \<open>getMouseCoords\<close> returns; the
  surface is mounted, so \<open>containerRef.current\<close> is never null.
\<close>

record Pill =
  pill_id :: nat
  pill_x :: real
  pill_y :: real
  pill_width :: real
  pill_height :: real
  pill_color :: string
  pill_borderRadius :: "string option"

definition MIN_SIZE :: real where
  "MIN_SIZE = 40"

definition CORNER_RADIUS :: string where
  "CORNER_RADIUS = ''20px''"

definition colors :: "string list" where
  "colors = [''#ef4444'', ''#3b82f6'', ''#10b981'', ''#f59e0b'', ''#8b5cf6'', ''#ec4899'']"

text \<open>
  The state of the component: the eight \<open>useState\<close> cells, the two references, and the
  number of \<open>setTimeout\<close> callbacks that \<open>handleMouseUp\<close> has scheduled and that have
  not run yet.  Points \<open>{x, y}\<close> are pairs.
\<close>

record State =
  pills :: "Pill list"
  mousePos :: "real \<times> real"
  currentPill :: "Pill option"
  isDrawing :: bool
  isDragging :: bool
  draggedPill :: "Pill option"
  dragOffset :: "real \<times> real"
  startPos :: "real \<times> real"
  nextIdRef :: nat
  hasMoved :: bool
  pendingTimeouts :: nat

definition initial :: State where
  "initial = \<lparr> pills = [], mousePos = (0, 0), currentPill = None, isDrawing = False,
     isDragging = False, draggedPill = None, dragOffset = (0, 0), startPos = (0, 0),
     nextIdRef = 0, hasMoved = False, pendingTimeouts = 0 \<rparr>"

section \<open>Operations\<close>

text \<open>
  \<open>getRandomColor\<close> picks \<open>colors[Math.floor(Math.random() * colors.length)]\<close>; the
  random draw is an argument \<open>r\<close> of the model, reduced into the range of the palette.
\<close>

definition getRandomColor :: "nat \<Rightarrow> string" where
  "getRandomColor r = colors ! (r mod length colors)"

text \<open>
  \<open>createPill\<close> reads the counter and increments it (\<open>nextIdRef.current++\<close>): the model
  takes the counter and returns the pill with the counter after the call.
\<close>

definition createPill ::
  "nat \<Rightarrow> real \<Rightarrow> real \<Rightarrow> real \<Rightarrow> real \<Rightarrow> string \<Rightarrow> string option \<Rightarrow> Pill \<times> nat" where
  "createPill n px py w h c br =
     (\<lparr> pill_id = n, pill_x = px, pill_y = py, pill_width = w, pill_height = h,
        pill_color = c, pill_borderRadius = br \<rparr>, Suc n)"

text \<open>
  \<open>handleMouseMove\<close> at the surface-local point \<open>(mx, my)\<close>.  The three conditions read
  the state of the render the handler was created in (\<open>s\<close>), so the test
  \<open>isDrawing && currentPill\<close> does not see the \<open>setIsDrawing(true)\<close> issued just above it;
  the updater functions apply to the queued state.
\<close>

definition handleMouseMove :: "real \<Rightarrow> real \<Rightarrow> State \<Rightarrow> State" where
  "handleMouseMove mx my s =
     (let s1 = s\<lparr> mousePos := (mx, my) \<rparr>;
          s2 = (if currentPill s \<noteq> None \<and> \<not> isDrawing s
                then (if \<bar>mx - fst (startPos s)\<bar> > 5 \<or> \<bar>my - snd (startPos s)\<bar> > 5
                      then s1\<lparr> isDrawing := True, hasMoved := True \<rparr>
                      else s1)
                else s1);
          s3 = (if isDrawing s \<and> currentPill s \<noteq> None
                then s2\<lparr> currentPill :=
                       map_option (\<lambda>prev. prev\<lparr>
                           pill_x := min (fst (startPos s)) mx,
                           pill_y := min (snd (startPos s)) my,
                           pill_width := max \<bar>mx - fst (startPos s)\<bar> MIN_SIZE,
                           pill_height := max \<bar>my - snd (startPos s)\<bar> MIN_SIZE \<rparr>)
                         (currentPill s2) \<rparr>
                else s2)
      in (case draggedPill s of
            Some d \<Rightarrow>
              (if isDragging s
               then s3\<lparr> hasMoved := True,
                        pills := map (\<lambda>pill.
                            if pill_id pill = pill_id d
                            then pill\<lparr> pill_x := max 0 (mx - fst (dragOffset s)),
                                       pill_y := max 0 (my - snd (dragOffset s)) \<rparr>
                            else pill) (pills s3) \<rparr>
               else s3)
          | None \<Rightarrow> s3))"

text \<open>
  \<open>handleMouseDown\<close> for a press whose target is the surface itself (a press on a pill
  is stopped by \<open>handlePillMouseDown\<close> and never reaches this handler).
\<close>

definition handleMouseDown :: "real \<Rightarrow> real \<Rightarrow> nat \<Rightarrow> State \<Rightarrow> State" where
  "handleMouseDown mx my r s =
     (case createPill (nextIdRef s) mx my MIN_SIZE MIN_SIZE (getRandomColor r)
             (Some CORNER_RADIUS) of
        (p, n) \<Rightarrow> s\<lparr> hasMoved := False, startPos := (mx, my), currentPill := Some p,
                     nextIdRef := n \<rparr>)"

definition handleMouseUp :: "State \<Rightarrow> State" where
  "handleMouseUp s =
     s\<lparr> pills := (case currentPill s of
                    Some c \<Rightarrow> (if isDrawing s then pills s @ [c] else pills s)
                  | None \<Rightarrow> pills s),
        isDrawing := False, currentPill := None, isDragging := False,
        draggedPill := None, pendingTimeouts := Suc (pendingTimeouts s) \<rparr>"

text \<open>
  The release when the component has not rendered since the state \<open>r\<close>: the handler is
  the one of that render, so it tests and commits \<open>isDrawing\<close> and \<open>currentPill\<close> of \<open>r\<close>,
  while its updaters apply to the latest state \<open>s\<close>.  \<open>handleMouseUp s\<close> is the case
  \<open>r = s\<close>, a release handled after the render of the last event.
\<close>

definition handleMouseUpFrom :: "State \<Rightarrow> State \<Rightarrow> State" where
  "handleMouseUpFrom r s =
     s\<lparr> pills := (case currentPill r of
                    Some c \<Rightarrow> (if isDrawing r then pills s @ [c] else pills s)
                  | None \<Rightarrow> pills s),
        isDrawing := False, currentPill := None, isDragging := False,
        draggedPill := None, pendingTimeouts := Suc (pendingTimeouts s) \<rparr>"

text \<open>The callback of \<open>setTimeout(() => (hasMoved.current = false), 10)\<close>.\<close>

definition timeoutFired :: "State \<Rightarrow> State" where
  "timeoutFired s =
     (if pendingTimeouts s = 0 then s
      else s\<lparr> hasMoved := False, pendingTimeouts := pendingTimeouts s - 1 \<rparr>)"

definition handlePillMouseDown :: "real \<Rightarrow> real \<Rightarrow> Pill \<Rightarrow> State \<Rightarrow> State" where
  "handlePillMouseDown mx my pill s =
     s\<lparr> hasMoved := False, isDragging := True, draggedPill := Some pill,
        dragOffset := (mx - pill_x pill, my - pill_y pill) \<rparr>"

subsection \<open>The click: split, nudge or pass\<close>

definition intersectsV :: "real \<Rightarrow> Pill \<Rightarrow> bool" where
  "intersectsV clickX pill \<longleftrightarrow> clickX \<ge> pill_x pill \<and> clickX \<le> pill_x pill + pill_width pill"

definition intersectsH :: "real \<Rightarrow> Pill \<Rightarrow> bool" where
  "intersectsH clickY pill \<longleftrightarrow> clickY \<ge> pill_y pill \<and> clickY \<le> pill_y pill + pill_height pill"

definition splitX :: "real \<Rightarrow> Pill \<Rightarrow> real" where
  "splitX clickX pill = max 0 (min (pill_width pill) (clickX - pill_x pill))"

definition splitY :: "real \<Rightarrow> Pill \<Rightarrow> real" where
  "splitY clickY pill = max 0 (min (pill_height pill) (clickY - pill_y pill))"

definition canSplitV :: "real \<Rightarrow> Pill \<Rightarrow> bool" where
  "canSplitV clickX pill \<longleftrightarrow>
     intersectsV clickX pill \<and> splitX clickX pill \<ge> 20 \<and> pill_width pill - splitX clickX pill \<ge> 20"

definition canSplitH :: "real \<Rightarrow> Pill \<Rightarrow> bool" where
  "canSplitH clickY pill \<longleftrightarrow>
     intersectsH clickY pill \<and> splitY clickY pill \<ge> 20 \<and> pill_height pill - splitY clickY pill \<ge> 20"

text \<open>The clone of the nudge branch, with the id \<open>n\<close> taken from the counter.\<close>

definition nudged :: "real \<Rightarrow> real \<Rightarrow> nat \<Rightarrow> Pill \<Rightarrow> Pill" where
  "nudged clickX clickY n pill =
     (let newPill = pill\<lparr> pill_id := n \<rparr>;
          centerX = pill_x pill + pill_width pill / 2;
          centerY = pill_y pill + pill_height pill / 2;
          newPill = (if intersectsV clickX pill
                     then newPill\<lparr> pill_x :=
                            (if centerX < clickX then max 0 (clickX - pill_width pill - 10)
                             else clickX + 10) \<rparr>
                     else newPill);
          newPill = (if intersectsH clickY pill
                     then newPill\<lparr> pill_y :=
                            (if centerY < clickY then max 0 (clickY - pill_height pill - 10)
                             else clickY + 10) \<rparr>
                     else newPill)
      in newPill\<lparr> pill_borderRadius := Some CORNER_RADIUS \<rparr>)"

text \<open>
  The body of \<open>prev.forEach\<close> in \<open>handleClick\<close>: the accumulator is the array
  \<open>newPills\<close> with the id counter, and the pills created by one \<open>push\<close> take their ids
  in the order of the arguments.
\<close>

definition clickPill :: "real \<Rightarrow> real \<Rightarrow> Pill list \<times> nat \<Rightarrow> Pill \<Rightarrow> Pill list \<times> nat" where
  "clickPill clickX clickY acc pill =
     (let newPills = fst acc; n = snd acc;
          sx = splitX clickX pill; sy = splitY clickY pill
      in if canSplitV clickX pill \<and> canSplitH clickY pill then
           (newPills @
              [fst (createPill n (pill_x pill) (pill_y pill) sx sy
                      (pill_color pill) (Some ''20px 0 0 0'')),
               fst (createPill (n + 1) (pill_x pill + sx) (pill_y pill)
                      (pill_width pill - sx) sy (pill_color pill) (Some ''0 20px 0 0'')),
               fst (createPill (n + 2) (pill_x pill) (pill_y pill + sy) sx
                      (pill_height pill - sy) (pill_color pill) (Some ''0 0 0 20px'')),
               fst (createPill (n + 3) (pill_x pill + sx) (pill_y pill + sy)
                      (pill_width pill - sx) (pill_height pill - sy) (pill_color pill)
                      (Some ''0 0 20px 0''))],
            n + 4)
         else if canSplitV clickX pill then
           (newPills @
              [fst (createPill n (pill_x pill) (pill_y pill) sx (pill_height pill)
                      (pill_color pill) (Some ''20px 0 0 20px'')),
               fst (createPill (n + 1) (pill_x pill + sx) (pill_y pill)
                      (pill_width pill - sx) (pill_height pill) (pill_color pill)
                      (Some ''0 20px 20px 0''))],
            n + 2)
         else if canSplitH clickY pill then
           (newPills @
              [fst (createPill n (pill_x pill) (pill_y pill) (pill_width pill) sy
                      (pill_color pill) (Some ''20px 20px 0 0'')),
               fst (createPill (n + 1) (pill_x pill) (pill_y pill + sy) (pill_width pill)
                      (pill_height pill - sy) (pill_color pill) (Some ''0 0 20px 20px''))],
            n + 2)
         else if intersectsV clickX pill \<or> intersectsH clickY pill then
           (newPills @ [nudged clickX clickY n pill], n + 1)
         else (newPills @ [pill], n))"

definition handleClick :: "real \<Rightarrow> real \<Rightarrow> State \<Rightarrow> State" where
  "handleClick clickX clickY s =
     (if isDrawing s \<or> isDragging s \<or> hasMoved s then s
      else (case foldl (clickPill clickX clickY) ([], nextIdRef s) (pills s) of
              (newPills, n) \<Rightarrow> s\<lparr> pills := newPills, nextIdRef := n \<rparr>))"

subsection \<open>The click with rounded arithmetic\<close>

text \<open>
  JavaScript numbers are IEEE 754 doubles: each addition, subtraction and division
  rounds its exact result to the nearest double, ties to even.  \<open>toDouble\<close> is that
  rounding for results in the normal range (magnitude from \<open>2^-1022\<close> up to below
  \<open>2^1024\<close>): \<open>binExp\<close> finds the binary exponent of the magnitude (with fuel), the unit
  in the last place is \<open>2^(e - 52)\<close>, and the magnitude is rounded to a multiple of it.
\<close>

definition pow2 :: "int \<Rightarrow> real" where
  "pow2 e = (if 0 \<le> e then 2 ^ nat e else 1 / 2 ^ nat (- e))"

fun binExp :: "nat \<Rightarrow> real \<Rightarrow> int" where
  "binExp 0 a = 0"
| "binExp (Suc k) a =
     (if 2 \<le> a then binExp k (a / 2) + 1
      else if a < 1 then binExp k (2 * a) - 1
      else 0)"

definition roundEven :: "real \<Rightarrow> int" where
  "roundEven m =
     (let f = \<lfloor>m\<rfloor>; d = m - of_int f
      in if d < 1 / 2 then f else if 1 / 2 < d then f + 1 else if even f then f else f + 1)"

definition toDouble :: "real \<Rightarrow> real" where
  "toDouble a =
     (if a = 0 then 0
      else (let u = pow2 (binExp 1100 \<bar>a\<bar> - 52)
            in sgn a * of_int (roundEven (\<bar>a\<bar> / u)) * u))"

text \<open>
  The body of \<open>prev.forEach\<close> once more, with a rounding \<open>rd\<close> applied to the result of
  every arithmetic operation of the source (comparisons, \<open>Math.min\<close> and \<open>Math.max\<close> are
  exact).  With \<open>rd = toDouble\<close> this is the computation on doubles; with the identity
  it is \<open>clickPill\<close>.
\<close>

definition intersectsVR :: "(real \<Rightarrow> real) \<Rightarrow> real \<Rightarrow> Pill \<Rightarrow> bool" where
  "intersectsVR rd clickX pill \<longleftrightarrow>
     clickX \<ge> pill_x pill \<and> clickX \<le> rd (pill_x pill + pill_width pill)"

definition intersectsHR :: "(real \<Rightarrow> real) \<Rightarrow> real \<Rightarrow> Pill \<Rightarrow> bool" where
  "intersectsHR rd clickY pill \<longleftrightarrow>
     clickY \<ge> pill_y pill \<and> clickY \<le> rd (pill_y pill + pill_height pill)"

definition splitXR :: "(real \<Rightarrow> real) \<Rightarrow> real \<Rightarrow> Pill \<Rightarrow> real" where
  "splitXR rd clickX pill = max 0 (min (pill_width pill) (rd (clickX - pill_x pill)))"

definition splitYR :: "(real \<Rightarrow> real) \<Rightarrow> real \<Rightarrow> Pill \<Rightarrow> real" where
  "splitYR rd clickY pill = max 0 (min (pill_height pill) (rd (clickY - pill_y pill)))"

definition canSplitVR :: "(real \<Rightarrow> real) \<Rightarrow> real \<Rightarrow> Pill \<Rightarrow> bool" where
  "canSplitVR rd clickX pill \<longleftrightarrow>
     intersectsVR rd clickX pill \<and> splitXR rd clickX pill \<ge> 20 \<and>
     rd (pill_width pill - splitXR rd clickX pill) \<ge> 20"

definition canSplitHR :: "(real \<Rightarrow> real) \<Rightarrow> real \<Rightarrow> Pill \<Rightarrow> bool" where
  "canSplitHR rd clickY pill \<longleftrightarrow>
     intersectsHR rd clickY pill \<and> splitYR rd clickY pill \<ge> 20 \<and>
     rd (pill_height pill - splitYR rd clickY pill) \<ge> 20"

definition nudgedR :: "(real \<Rightarrow> real) \<Rightarrow> real \<Rightarrow> real \<Rightarrow> nat \<Rightarrow> Pill \<Rightarrow> Pill" where
  "nudgedR rd clickX clickY n pill =
     (let newPill = pill\<lparr> pill_id := n \<rparr>;
          centerX = rd (pill_x pill + rd (pill_width pill / 2));
          centerY = rd (pill_y pill + rd (pill_height pill / 2));
          newPill = (if intersectsVR rd clickX pill
                     then newPill\<lparr> pill_x :=
                            (if centerX < clickX
                             then max 0 (rd (rd (clickX - pill_width pill) - 10))
                             else rd (clickX + 10)) \<rparr>
                     else newPill);
          newPill = (if intersectsHR rd clickY pill
                     then newPill\<lparr> pill_y :=
                            (if centerY < clickY
                             then max 0 (rd (rd (clickY - pill_height pill) - 10))
                             else rd (clickY + 10)) \<rparr>
                     else newPill)
      in newPill\<lparr> pill_borderRadius := Some CORNER_RADIUS \<rparr>)"

definition clickPillR ::
  "(real \<Rightarrow> real) \<Rightarrow> real \<Rightarrow> real \<Rightarrow> Pill list \<times> nat \<Rightarrow> Pill \<Rightarrow> Pill list \<times> nat" where
  "clickPillR rd clickX clickY acc pill =
     (let newPills = fst acc; n = snd acc;
          sx = splitXR rd clickX pill; sy = splitYR rd clickY pill
      in if canSplitVR rd clickX pill \<and> canSplitHR rd clickY pill then
           (newPills @
              [fst (createPill n (pill_x pill) (pill_y pill) sx sy
                      (pill_color pill) (Some ''20px 0 0 0'')),
               fst (createPill (n + 1) (rd (pill_x pill + sx)) (pill_y pill)
                      (rd (pill_width pill - sx)) sy (pill_color pill) (Some ''0 20px 0 0'')),
               fst (createPill (n + 2) (pill_x pill) (rd (pill_y pill + sy)) sx
                      (rd (pill_height pill - sy)) (pill_color pill) (Some ''0 0 0 20px'')),
               fst (createPill (n + 3) (rd (pill_x pill + sx)) (rd (pill_y pill + sy))
                      (rd (pill_width pill - sx)) (rd (pill_height pill - sy))
                      (pill_color pill) (Some ''0 0 20px 0''))],
            n + 4)
         else if canSplitVR rd clickX pill then
           (newPills @
              [fst (createPill n (pill_x pill) (pill_y pill) sx (pill_height pill)
                      (pill_color pill) (Some ''20px 0 0 20px'')),
               fst (createPill (n + 1) (rd (pill_x pill + sx)) (pill_y pill)
                      (rd (pill_width pill - sx)) (pill_height pill) (pill_color pill)
                      (Some ''0 20px 20px 0''))],
            n + 2)
         else if canSplitHR rd clickY pill then
           (newPills @
              [fst (createPill n (pill_x pill) (pill_y pill) (pill_width pill) sy
                      (pill_color pill) (Some ''20px 20px 0 0'')),
               fst (createPill (n + 1) (pill_x pill) (rd (pill_y pill + sy)) (pill_width pill)
                      (rd (pill_height pill - sy)) (pill_color pill)
                      (Some ''0 0 20px 20px''))],
            n + 2)
         else if intersectsVR rd clickX pill \<or> intersectsHR rd clickY pill then
           (newPills @ [nudgedR rd clickX clickY n pill], n + 1)
         else (newPills @ [pill], n))"

subsection \<open>Events\<close>

text \<open>
  The events the surface receives.  \<open>MouseDown mx my r\<close> is a press whose target is the
  surface, with the random draw \<open>r\<close> of the colour.  \<open>PillMouseDown mx my i\<close> is a press
  on the i-th rendered pill (the handler of that element closes over \<open>pills[i]\<close>); there
  is no such element for an index beyond the list, and the state stays as it is.  A
  click reaches \<open>handleClick\<close> from the surface and from a pill alike.  \<open>Timeout\<close> is the
  run of one scheduled reset of \<open>hasMoved\<close>.
\<close>

datatype Event =
  MouseDown real real nat
| PillMouseDown real real nat
| MouseMove real real
| MouseUp
| Click real real
| Timeout

fun step :: "State \<Rightarrow> Event \<Rightarrow> State" where
  "step s (MouseDown mx my r) = handleMouseDown mx my r s"
| "step s (PillMouseDown mx my i) =
     (if i < length (pills s) then handlePillMouseDown mx my (pills s ! i) s else s)"
| "step s (MouseMove mx my) = handleMouseMove mx my s"
| "step s MouseUp = handleMouseUp s"
| "step s (Click mx my) = handleClick mx my s"
| "step s Timeout = timeoutFired s"

definition run :: "Event list \<Rightarrow> State \<Rightarrow> State" where
  "run es s = foldl step s es"

subsection \<open>Notions the properties are stated with\<close>

text \<open>
  The shapes a state holds: the committed pills, then the pill under construction.
\<close>

definition shapes :: "State \<Rightarrow> Pill list" where
  "shapes s = pills s @ (case currentPill s of Some c \<Rightarrow> [c] | None \<Rightarrow> [])"

text \<open>
  The geometry of a pill: its area, the closed rectangle it covers and the open
  rectangle strictly inside it (two pills overlap when some point is inside both).
\<close>

definition area :: "Pill \<Rightarrow> real" where
  "area p = pill_width p * pill_height p"

definition covers :: "Pill \<Rightarrow> real \<Rightarrow> real \<Rightarrow> bool" where
  "covers p a b \<longleftrightarrow>
     pill_x p \<le> a \<and> a \<le> pill_x p + pill_width p \<and>
     pill_y p \<le> b \<and> b \<le> pill_y p + pill_height p"

definition inside :: "Pill \<Rightarrow> real \<Rightarrow> real \<Rightarrow> bool" where
  "inside p a b \<longleftrightarrow>
     pill_x p < a \<and> a < pill_x p + pill_width p \<and>
     pill_y p < b \<and> b < pill_y p + pill_height p"

text \<open>
  The pointer of a press on the surface or of a move is a point of the surface, whose
  local coordinates are not negative.
\<close>

fun pointerOnSurface :: "Event \<Rightarrow> bool" where
  "pointerOnSurface (MouseDown mx my r) \<longleftrightarrow> 0 \<le> mx \<and> 0 \<le> my"
| "pointerOnSurface (MouseMove mx my) \<longleftrightarrow> 0 \<le> mx \<and> 0 \<le> my"
| "pointerOnSurface e \<longleftrightarrow> True"

text \<open>
  Gestures.  A gesture is a press, the moves of the pointer and the release; the moves
  are given by their points.  A move crosses the draw threshold when it is more than 5
  units from the start point on an axis (the test of \<open>handleMouseMove\<close>).  A gesture
  has moved, for the program, when it is a press on a pill followed by at least one
  move, or a press on the surface, with no drawing in progress, followed by a move that
  crosses the threshold.
\<close>

definition mouseMoves :: "(real \<times> real) list \<Rightarrow> Event list" where
  "mouseMoves ms = map (\<lambda>(mx, my). MouseMove mx my) ms"

definition crossesThreshold :: "real \<times> real \<Rightarrow> real \<times> real \<Rightarrow> bool" where
  "crossesThreshold start m \<longleftrightarrow> \<bar>fst m - fst start\<bar> > 5 \<or> \<bar>snd m - snd start\<bar> > 5"

fun movedGesture :: "Event \<Rightarrow> (real \<times> real) list \<Rightarrow> State \<Rightarrow> bool" where
  "movedGesture (PillMouseDown mx my i) ms s \<longleftrightarrow> i < length (pills s) \<and> ms \<noteq> []"
| "movedGesture (MouseDown mx my r) ms s \<longleftrightarrow>
     \<not> isDrawing s \<and> list_ex (crossesThreshold (mx, my)) ms"
| "movedGesture e ms s \<longleftrightarrow> False"

text \<open>The invariants of the reachable states.\<close>

definition sizesOk :: "State \<Rightarrow> bool" where
  "sizesOk s \<longleftrightarrow>
     (\<forall>p\<in>set (pills s). 20 \<le> pill_width p \<and> 20 \<le> pill_height p) \<and>
     (\<forall>c. currentPill s = Some c \<longrightarrow> MIN_SIZE \<le> pill_width c \<and> MIN_SIZE \<le> pill_height c)"

definition originsOk :: "State \<Rightarrow> bool" where
  "originsOk s \<longleftrightarrow>
     (\<forall>p\<in>set (pills s). 0 \<le> pill_x p \<and> 0 \<le> pill_y p) \<and>
     (\<forall>c. currentPill s = Some c \<longrightarrow> 0 \<le> pill_x c \<and> 0 \<le> pill_y c) \<and>
     0 \<le> fst (startPos s) \<and> 0 \<le> snd (startPos s)"

definition idsOk :: "State \<Rightarrow> bool" where
  "idsOk s \<longleftrightarrow>
     distinct (map pill_id (shapes s)) \<and>
     (\<forall>i\<in>set (map pill_id (shapes s)). i < nextIdRef s)"

subsection \<open>Example states\<close>

text \<open>
  A square pill of side 100 at the origin, the gesture that draws it on the empty
  surface, and the state that gesture ends in (once the deferred reset has run).
\<close>

definition squarePill :: Pill where
  "squarePill = \<lparr> pill_id = 0, pill_x = 0, pill_y = 0, pill_width = 100, pill_height = 100,
     pill_color = ''#ef4444'', pill_borderRadius = Some ''20px'' \<rparr>"

definition drawSquare :: "Event list" where
  "drawSquare = [MouseDown 0 0 0, MouseMove 50 50, MouseMove 100 100, MouseUp, Timeout]"

definition squareState :: State where
  "squareState = \<lparr> pills = [squarePill], mousePos = (100, 100), currentPill = None,
     isDrawing = False, isDragging = False, draggedPill = None, dragOffset = (0, 0),
     startPos = (0, 0), nextIdRef = 1, hasMoved = False, pendingTimeouts = 0 \<rparr>"

text \<open>
  A pill and a click whose coordinates are doubles: the pill is what a draw from
  \<open>(0.1, 0)\<close> to \<open>(100, 100)\<close> leaves (\<open>x\<close> is the double nearest to 0.1, the width the
  double \<open>100 - x\<close> rounds to, 99.9), the click is at the double nearest to 32.8.
\<close>

definition roundedPill :: Pill where
  "roundedPill = \<lparr> pill_id = 0, pill_x = 3602879701896397 / 36028797018963968, pill_y = 0,
     pill_width = 3514918771674317 / 35184372088832, pill_height = 100,
     pill_color = ''#ef4444'', pill_borderRadius = Some ''20px'' \<rparr>"

definition roundedClickX :: real where
  "roundedClickX = 2308094809027379 / 70368744177664"

text \<open>
  A draw whose release does not reach the surface (the button is released outside it),
  followed by a second draw from \<open>(200, 200)\<close> to \<open>(300, 300)\<close> with its release.
\<close>

definition stuckDrawTrace :: "Event list" where
  "stuckDrawTrace = [MouseDown 10 10 0, MouseMove 60 60, MouseDown 200 200 0,
     MouseMove 300 300, MouseUp]"

section \<open>Basic facts\<close>

lemmas handler_defs = handleMouseMove_def handleMouseDown_def handleMouseUp_def timeoutFired_def
  handlePillMouseDown_def handleClick_def createPill_def MIN_SIZE_def getRandomColor_def colors_def
  run_def

lemmas click_defs = clickPill_def canSplitV_def canSplitH_def intersectsV_def intersectsH_def
  splitX_def splitY_def nudged_def

lemma run_append: "run (es @ es') s = run es' (run es s)"
  by (simp add: run_def)

lemma run_drawSquare: "run drawSquare initial = squareState"
  by (simp add: drawSquare_def initial_def squareState_def squarePill_def handler_defs
      CORNER_RADIUS_def)

text \<open>The array \<open>newPills\<close> only grows: what a pill emits does not depend on it.\<close>

lemma clickPill_acc:
  "clickPill cx cy (acc, n) p =
     (acc @ fst (clickPill cx cy ([], n) p), snd (clickPill cx cy ([], n) p))"
  by (simp add: clickPill_def Let_def)







lemma handleClick_pills:
  "pills (handleClick cx cy s) =
     (if isDrawing s \<or> isDragging s \<or> hasMoved s then pills s
      else fst (foldl (clickPill cx cy) ([], nextIdRef s) (pills s)))"
  by (simp add: handleClick_def split: prod.splits)

lemma handleClick_nextIdRef:
  "nextIdRef (handleClick cx cy s) =
     (if isDrawing s \<or> isDragging s \<or> hasMoved s then nextIdRef s
      else snd (foldl (clickPill cx cy) ([], nextIdRef s) (pills s)))"
  by (simp add: handleClick_def split: prod.splits)

lemma handleClick_other:
  "currentPill (handleClick cx cy s) = currentPill s"
  "startPos (handleClick cx cy s) = startPos s"
  "isDrawing (handleClick cx cy s) = isDrawing s"
  "isDragging (handleClick cx cy s) = isDragging s"
  "hasMoved (handleClick cx cy s) = hasMoved s"
  by (simp_all add: handleClick_def split: prod.splits)

text \<open>A property of every state a run passes through, from the steps that preserve it.\<close>

lemma run_invariant:
  assumes "P s" and "\<And>t e. P t \<Longrightarrow> e \<in> set es \<Longrightarrow> P (step t e)"
  shows "P (run es s)"
  using assms unfolding run_def
  by (induction es arbitrary: s) simp_all

lemma foldl_clickPill_snoc:
  "foldl (clickPill cx cy) ([], n) (ps @ [p]) =
     (fst (foldl (clickPill cx cy) ([], n) ps) @
        fst (clickPill cx cy ([], snd (foldl (clickPill cx cy) ([], n) ps)) p),
      snd (clickPill cx cy ([], snd (foldl (clickPill cx cy) ([], n) ps)) p))"
proof -
  obtain A k where f: "foldl (clickPill cx cy) ([], n) ps = (A, k)"
    by (cases "foldl (clickPill cx cy) ([], n) ps")
  show ?thesis
    using clickPill_acc [of cx cy A k p] by (simp add: f)
qed

text \<open>What holds of all that each pill emits holds of the pills after the click.\<close>

lemma foldl_clickPill_all:
  assumes "\<And>p k. p \<in> set ps \<Longrightarrow> \<forall>q\<in>set (fst (clickPill cx cy ([], k) p)). Q q"
  shows "\<forall>q\<in>set (fst (foldl (clickPill cx cy) ([], n) ps)). Q q"
  using assms
proof (induction ps rule: rev_induct)
  case Nil
  show ?case by simp
next
  case (snoc p ps)
  have "\<forall>q\<in>set (fst (foldl (clickPill cx cy) ([], n) ps)). Q q"
    by (rule snoc.IH) (rule snoc.prems, simp)
  moreover have
    "\<forall>q\<in>set (fst (clickPill cx cy ([], snd (foldl (clickPill cx cy) ([], n) ps)) p)). Q q"
    by (rule snoc.prems) simp
  ultimately show ?case
    unfolding foldl_clickPill_snoc by auto
qed

section \<open>A click that touches no pill\<close>




section \<open>When a pill is split four ways\<close>



section \<open>A split partitions the pill\<close>

lemmas double_defs = toDouble_def pow2_def roundEven_def

lemmas clickR_defs = clickPillR_def canSplitVR_def canSplitHR_def intersectsVR_def
  intersectsHR_def splitXR_def splitYR_def nudgedR_def

text \<open>With exact arithmetic the rounded click is the click of the real-number model.\<close>

lemma clickPillR_exact: "clickPillR (\<lambda>a. a) cx cy acc p = clickPill cx cy acc p"
  unfolding clickPillR_def clickPill_def canSplitVR_def canSplitHR_def canSplitV_def
    canSplitH_def intersectsVR_def intersectsHR_def intersectsV_def intersectsH_def
    splitXR_def splitYR_def splitX_def splitY_def nudgedR_def nudged_def
  by (rule refl)

lemma binExp_numeral [simp]:
  "binExp (numeral k) a =
     (if 2 \<le> a then binExp (pred_numeral k) (a / 2) + 1
      else if a < 1 then binExp (pred_numeral k) (2 * a) - 1
      else 0)"
  by (simp add: numeral_eq_Suc)

lemma roundedPill_split:
  "fst (clickPillR toDouble roundedClickX 500 ([], 1) roundedPill) =
     [\<lparr> pill_id = 1, pill_x = 3602879701896397 / 36028797018963968, pill_y = 0,
        pill_width = 4602115869219225 / 140737488355328, pill_height = 100,
        pill_color = ''#ef4444'', pill_borderRadius = Some ''20px 0 0 20px'' \<rparr>,
      \<lparr> pill_id = 2, pill_x = 2308094809027379 / 70368744177664, pill_y = 0,
        pill_width = 2364389804369511 / 35184372088832, pill_height = 100,
        pill_color = ''#ef4444'', pill_borderRadius = Some ''0 20px 20px 0'' \<rparr>]"
  by (simp add: clickR_defs roundedPill_def roundedClickX_def createPill_def double_defs)

text \<open>
  C6, as stated: the pills a split emits partition the original exactly, their areas
  adding up to its area, the arithmetic being exact.  It fails on doubles: for the pill
  drawn from \<open>(0.1, 0)\<close> to \<open>(100, 100)\<close> and the click at \<open>(32.8, 500)\<close> the code emits
  a left and a right pill of widths 32.699999999999996 and 67.20000000000002, which do
  not add up to the width 99.9; the areas do not add up to the area, and the right pill
  covers points beyond the right edge of the original.
\<close>

theorem split_rounding_counterexample:
  "toDouble (pill_x roundedPill) = pill_x roundedPill \<and>
   toDouble (100 - pill_x roundedPill) = pill_width roundedPill \<and>
   toDouble roundedClickX = roundedClickX \<and>
   canSplitVR toDouble roundedClickX roundedPill \<and>
   length (fst (clickPillR toDouble roundedClickX 500 ([], 1) roundedPill)) = 2 \<and>
   sum_list (map pill_width (fst (clickPillR toDouble roundedClickX 500 ([], 1) roundedPill)))
     \<noteq> pill_width roundedPill \<and>
   sum_list (map area (fst (clickPillR toDouble roundedClickX 500 ([], 1) roundedPill)))
     \<noteq> area roundedPill \<and>
   covers (fst (clickPillR toDouble roundedClickX 500 ([], 1) roundedPill) ! 1)
     (7036874417766401 / 70368744177664) 50 \<and>
   \<not> covers roundedPill (7036874417766401 / 70368744177664) 50"
proof -
  have a: "toDouble (pill_x roundedPill) = pill_x roundedPill"
    "toDouble (100 - pill_x roundedPill) = pill_width roundedPill"
    "toDouble roundedClickX = roundedClickX"
    by (simp_all add: roundedPill_def roundedClickX_def double_defs)
  have b: "canSplitVR toDouble roundedClickX roundedPill"
    by (simp add: canSplitVR_def intersectsVR_def splitXR_def roundedPill_def roundedClickX_def
        double_defs)
  have c: "covers \<lparr> pill_id = 2, pill_x = 2308094809027379 / 70368744177664, pill_y = 0,
        pill_width = 2364389804369511 / 35184372088832, pill_height = 100,
        pill_color = ''#ef4444'', pill_borderRadius = Some ''0 20px 20px 0'' \<rparr>
        (7036874417766401 / 70368744177664) 50"
    "\<not> covers roundedPill (7036874417766401 / 70368744177664) 50"
    by (simp_all add: covers_def roundedPill_def)
  have w: "sum_list (map pill_width
      [\<lparr> pill_id = 1, pill_x = 3602879701896397 / 36028797018963968, pill_y = 0,
        pill_width = 4602115869219225 / 140737488355328, pill_height = 100,
        pill_color = ''#ef4444'', pill_borderRadius = Some ''20px 0 0 20px'' \<rparr>,
      \<lparr> pill_id = 2, pill_x = 2308094809027379 / 70368744177664, pill_y = 0,
        pill_width = 2364389804369511 / 35184372088832, pill_height = 100,
        pill_color = ''#ef4444'', pill_borderRadius = Some ''0 20px 20px 0'' \<rparr>])
      \<noteq> pill_width roundedPill"
    by (simp add: roundedPill_def)
  have ar: "sum_list (map area
      [\<lparr> pill_id = 1, pill_x = 3602879701896397 / 36028797018963968, pill_y = 0,
        pill_width = 4602115869219225 / 140737488355328, pill_height = 100,
        pill_color = ''#ef4444'', pill_borderRadius = Some ''20px 0 0 20px'' \<rparr>,
      \<lparr> pill_id = 2, pill_x = 2308094809027379 / 70368744177664, pill_y = 0,
        pill_width = 2364389804369511 / 35184372088832, pill_height = 100,
        pill_color = ''#ef4444'', pill_borderRadius = Some ''0 20px 20px 0'' \<rparr>])
      \<noteq> area roundedPill"
    by (simp add: area_def roundedPill_def)
  show ?thesis
    unfolding roundedPill_split using a b c w ar by simp
qed

lemma canSplitVR_range:
  assumes "canSplitVR rd cx p" "rd (pill_width p - splitXR rd cx p) = pill_width p - splitXR rd cx p"
  shows "0 \<le> splitXR rd cx p \<and> splitXR rd cx p \<le> pill_width p"
  using assms by (simp add: canSplitVR_def)

lemma canSplitHR_range:
  assumes "canSplitHR rd cy p" "rd (pill_height p - splitYR rd cy p) = pill_height p - splitYR rd cy p"
  shows "0 \<le> splitYR rd cy p \<and> splitYR rd cy p \<le> pill_height p"
  using assms by (simp add: canSplitHR_def)

text \<open>
  C6, amended: whenever a click splits a pill and the operations that place and size
  the emitted pills incur no rounding (\<open>x + splitX\<close> and \<open>width - splitX\<close> when the pill
  is split vertically, \<open>y + splitY\<close> and \<open>height - splitY\<close> when it is split
  horizontally), the emitted pills, four when both axes split and two otherwise,
  partition the rectangle of the original: their areas add up to its area, every point
  the original covers is covered by an emitted pill and conversely, and no point lies
  inside two of them.  This holds whatever the rounding of the arithmetic is.
\<close>

theorem split_partitions_pill_when_exact:
  assumes "canSplitVR rd cx p \<or> canSplitHR rd cy p"
    and "canSplitVR rd cx p \<longrightarrow>
           rd (pill_x p + splitXR rd cx p) = pill_x p + splitXR rd cx p \<and>
           rd (pill_width p - splitXR rd cx p) = pill_width p - splitXR rd cx p"
    and "canSplitHR rd cy p \<longrightarrow>
           rd (pill_y p + splitYR rd cy p) = pill_y p + splitYR rd cy p \<and>
           rd (pill_height p - splitYR rd cy p) = pill_height p - splitYR rd cy p"
  shows "length (fst (clickPillR rd cx cy ([], n) p)) =
      (if canSplitVR rd cx p \<and> canSplitHR rd cy p then 4 else 2) \<and>
    sum_list (map area (fst (clickPillR rd cx cy ([], n) p))) = area p \<and>
    (covers p a b \<longleftrightarrow> (\<exists>q\<in>set (fst (clickPillR rd cx cy ([], n) p)). covers q a b)) \<and>
    (\<forall>i j. i < j \<and> j < length (fst (clickPillR rd cx cy ([], n) p)) \<longrightarrow>
       \<not> (inside (fst (clickPillR rd cx cy ([], n) p) ! i) a b \<and>
          inside (fst (clickPillR rd cx cy ([], n) p) ! j) a b))"
proof -
  define sx where "sx = splitXR rd cx p"
  define sy where "sy = splitYR rd cy p"
  let ?out = "fst (clickPillR rd cx cy ([], n) p)"
  consider (four) "canSplitVR rd cx p" "canSplitHR rd cy p"
    | (vert) "canSplitVR rd cx p" "\<not> canSplitHR rd cy p"
    | (horiz) "\<not> canSplitVR rd cx p" "canSplitHR rd cy p"
    using assms(1) by blast
  then show ?thesis
  proof cases
    case four
    have e: "rd (pill_x p + sx) = pill_x p + sx" "rd (pill_width p - sx) = pill_width p - sx"
      "rd (pill_y p + sy) = pill_y p + sy" "rd (pill_height p - sy) = pill_height p - sy"
      using assms(2,3) four by (simp_all add: sx_def sy_def)
    have r: "0 \<le> sx" "sx \<le> pill_width p" "0 \<le> sy" "sy \<le> pill_height p"
      using canSplitVR_range [OF four(1)] canSplitHR_range [OF four(2)] e
      by (simp_all add: sx_def sy_def)
    have out: "?out =
        [fst (createPill n (pill_x p) (pill_y p) sx sy (pill_color p) (Some ''20px 0 0 0'')),
         fst (createPill (n + 1) (pill_x p + sx) (pill_y p) (pill_width p - sx) sy
                (pill_color p) (Some ''0 20px 0 0'')),
         fst (createPill (n + 2) (pill_x p) (pill_y p + sy) sx (pill_height p - sy)
                (pill_color p) (Some ''0 0 0 20px'')),
         fst (createPill (n + 3) (pill_x p + sx) (pill_y p + sy) (pill_width p - sx)
                (pill_height p - sy) (pill_color p) (Some ''0 0 20px 0''))]"
      using four e by (simp add: clickPillR_def Let_def sx_def sy_def)
    have l: "length ?out = (if canSplitVR rd cx p \<and> canSplitHR rd cy p then 4 else 2)"
      using four by (simp add: out)
    have a: "sum_list (map area ?out) = area p"
      unfolding out by (simp add: area_def createPill_def algebra_simps)
    have c: "covers p a b \<longleftrightarrow> (\<exists>q\<in>set ?out. covers q a b)"
      unfolding out using r by (simp add: covers_def createPill_def) linarith
    have d: "\<not> (inside (?out ! i) a b \<and> inside (?out ! j) a b)"
      if "i < j" "j < length ?out" for i j
    proof -
      have "j < 4" using that(2) unfolding out by simp
      then have "(i, j) \<in> {(0,1), (0,2), (0,3), (1,2), (1,3), (2,3)}"
        using that(1) by auto
      then show ?thesis
        unfolding out by (auto simp: inside_def createPill_def)
    qed
    show ?thesis using l a c d by blast
  next
    case vert
    have e: "rd (pill_x p + sx) = pill_x p + sx" "rd (pill_width p - sx) = pill_width p - sx"
      using assms(2) vert by (simp_all add: sx_def)
    have r: "0 \<le> sx" "sx \<le> pill_width p"
      using canSplitVR_range [OF vert(1)] e by (simp_all add: sx_def)
    have out: "?out =
        [fst (createPill n (pill_x p) (pill_y p) sx (pill_height p) (pill_color p)
                (Some ''20px 0 0 20px'')),
         fst (createPill (n + 1) (pill_x p + sx) (pill_y p) (pill_width p - sx)
                (pill_height p) (pill_color p) (Some ''0 20px 20px 0''))]"
      using vert e by (simp add: clickPillR_def Let_def sx_def)
    have l: "length ?out = (if canSplitVR rd cx p \<and> canSplitHR rd cy p then 4 else 2)"
      using vert by (simp add: out)
    have a: "sum_list (map area ?out) = area p"
      unfolding out by (simp add: area_def createPill_def algebra_simps)
    have c: "covers p a b \<longleftrightarrow> (\<exists>q\<in>set ?out. covers q a b)"
      unfolding out using r by (simp add: covers_def createPill_def) linarith
    have d: "\<not> (inside (?out ! i) a b \<and> inside (?out ! j) a b)"
      if "i < j" "j < length ?out" for i j
    proof -
      have "j < 2" using that(2) unfolding out by simp
      then have "i = 0 \<and> j = 1"
        using that(1) by auto
      then show ?thesis
        unfolding out by (auto simp: inside_def createPill_def)
    qed
    show ?thesis using l a c d by blast
  next
    case horiz
    have e: "rd (pill_y p + sy) = pill_y p + sy" "rd (pill_height p - sy) = pill_height p - sy"
      using assms(3) horiz by (simp_all add: sy_def)
    have r: "0 \<le> sy" "sy \<le> pill_height p"
      using canSplitHR_range [OF horiz(2)] e by (simp_all add: sy_def)
    have out: "?out =
        [fst (createPill n (pill_x p) (pill_y p) (pill_width p) sy (pill_color p)
                (Some ''20px 20px 0 0'')),
         fst (createPill (n + 1) (pill_x p) (pill_y p + sy) (pill_width p)
                (pill_height p - sy) (pill_color p) (Some ''0 0 20px 20px''))]"
      using horiz e by (simp add: clickPillR_def Let_def sy_def)
    have l: "length ?out = (if canSplitVR rd cx p \<and> canSplitHR rd cy p then 4 else 2)"
      using horiz by (simp add: out)
    have a: "sum_list (map area ?out) = area p"
      unfolding out by (simp add: area_def createPill_def algebra_simps)
    have c: "covers p a b \<longleftrightarrow> (\<exists>q\<in>set ?out. covers q a b)"
      unfolding out using r by (simp add: covers_def createPill_def) linarith
    have d: "\<not> (inside (?out ! i) a b \<and> inside (?out ! j) a b)"
      if "i < j" "j < length ?out" for i j
    proof -
      have "j < 2" using that(2) unfolding out by simp
      then have "i = 0 \<and> j = 1"
        using that(1) by auto
      then show ?thesis
        unfolding out by (auto simp: inside_def createPill_def)
    qed
    show ?thesis using l a c d by blast
  qed
qed

theorem split_partitions_pill_when_exact_witness:
  "canSplitVR toDouble 50 squarePill \<and> canSplitHR toDouble 50 squarePill \<and>
   toDouble (pill_x squarePill + splitXR toDouble 50 squarePill) =
     pill_x squarePill + splitXR toDouble 50 squarePill \<and>
   toDouble (pill_width squarePill - splitXR toDouble 50 squarePill) =
     pill_width squarePill - splitXR toDouble 50 squarePill \<and>
   length (fst (clickPillR toDouble 50 50 ([], 1) squarePill)) = 4 \<and>
   area squarePill = 10000 \<and>
   sum_list (map area (fst (clickPillR toDouble 50 50 ([], 1) squarePill))) = 10000 \<and>
   covers squarePill 75 25 \<and>
   (\<exists>q\<in>set (fst (clickPillR toDouble 50 50 ([], 1) squarePill)). covers q 75 25) \<and>
   \<not> (inside (fst (clickPillR toDouble 50 50 ([], 1) squarePill) ! 0) 75 25 \<and>
      inside (fst (clickPillR toDouble 50 50 ([], 1) squarePill) ! 1) 75 25)"
proof -
  have sx: "splitXR toDouble 50 squarePill = 50" "splitYR toDouble 50 squarePill = 50"
    by (simp_all add: splitXR_def splitYR_def squarePill_def double_defs)
  have d: "toDouble 50 = 50" "toDouble 100 = 100"
    by (simp_all add: double_defs)
  have v: "canSplitVR toDouble 50 squarePill" "canSplitHR toDouble 50 squarePill"
    by (simp_all add: canSplitVR_def canSplitHR_def intersectsVR_def intersectsHR_def sx)
       (simp_all add: squarePill_def d)
  have e: "toDouble (pill_x squarePill + splitXR toDouble 50 squarePill) =
       pill_x squarePill + splitXR toDouble 50 squarePill"
    "toDouble (pill_width squarePill - splitXR toDouble 50 squarePill) =
       pill_width squarePill - splitXR toDouble 50 squarePill"
    "toDouble (pill_y squarePill + splitYR toDouble 50 squarePill) =
       pill_y squarePill + splitYR toDouble 50 squarePill"
    "toDouble (pill_height squarePill - splitYR toDouble 50 squarePill) =
       pill_height squarePill - splitYR toDouble 50 squarePill"
    by (simp_all add: sx) (simp_all add: squarePill_def d)
  have a: "area squarePill = 10000" "covers squarePill 75 25"
    by (simp_all add: squarePill_def area_def covers_def)
  show ?thesis
    using split_partitions_pill_when_exact [of toDouble 50 squarePill 50 1 75 25] v e a
    by simp
qed

section \<open>The sizes of the pills in the store\<close>

lemma clickPill_sizes:
  assumes "20 \<le> pill_width p" "20 \<le> pill_height p"
  shows "\<forall>q\<in>set (fst (clickPill cx cy ([], k) p)). 20 \<le> pill_width q \<and> 20 \<le> pill_height q"
  using assms
  by (auto simp: clickPill_def Let_def createPill_def canSplitV_def canSplitH_def nudged_def)

lemma sizesOk_step: "sizesOk s \<Longrightarrow> sizesOk (step s e)"
proof (cases e)
  case (Click cx cy)
  assume ok: "sizesOk s"
  have "\<forall>q\<in>set (fst (foldl (clickPill cx cy) ([], nextIdRef s) (pills s))).
          20 \<le> pill_width q \<and> 20 \<le> pill_height q"
  proof (rule foldl_clickPill_all)
    fix p k
    assume "p \<in> set (pills s)"
    then have "20 \<le> pill_width p" "20 \<le> pill_height p"
      using ok by (simp_all add: sizesOk_def)
    then show "\<forall>q\<in>set (fst (clickPill cx cy ([], k) p)).
        20 \<le> pill_width q \<and> 20 \<le> pill_height q"
      by (rule clickPill_sizes)
  qed
  then show ?thesis
    using ok by (simp add: Click sizesOk_def handleClick_pills handleClick_other)
qed (auto simp: sizesOk_def handleMouseDown_def createPill_def handlePillMouseDown_def
      handleMouseMove_def Let_def handleMouseUp_def timeoutFired_def MIN_SIZE_def
      split: option.splits)

lemma sizesOk_run: "sizesOk (run es initial)"
proof (rule run_invariant)
  show "sizesOk initial"
    by (simp add: sizesOk_def initial_def)
next
  fix t e
  assume "sizesOk t"
  then show "sizesOk (step t e)"
    by (rule sizesOk_step)
qed

lemma run_square_click_20:
  "run (drawSquare @ [Click 20 20]) initial = squareState\<lparr> pills :=
     [\<lparr> pill_id = 1, pill_x = 0, pill_y = 0, pill_width = 20, pill_height = 20,
        pill_color = ''#ef4444'', pill_borderRadius = Some ''20px 0 0 0'' \<rparr>,
      \<lparr> pill_id = 2, pill_x = 20, pill_y = 0, pill_width = 80, pill_height = 20,
        pill_color = ''#ef4444'', pill_borderRadius = Some ''0 20px 0 0'' \<rparr>,
      \<lparr> pill_id = 3, pill_x = 0, pill_y = 20, pill_width = 20, pill_height = 80,
        pill_color = ''#ef4444'', pill_borderRadius = Some ''0 0 0 20px'' \<rparr>,
      \<lparr> pill_id = 4, pill_x = 20, pill_y = 20, pill_width = 80, pill_height = 80,
        pill_color = ''#ef4444'', pill_borderRadius = Some ''0 0 20px 0'' \<rparr>],
     nextIdRef := 5 \<rparr>"
  by (simp add: run_append run_drawSquare)
     (simp add: run_def squareState_def squarePill_def handleClick_def click_defs createPill_def)

text \<open>
  C2, as stated: every pill in the store has width and height at least 40, also the
  pills a split emits.  It fails: the click at \<open>(20, 20)\<close> on the square pill of side
  100 puts a pill of 20 by 20 into the store.
\<close>

theorem store_min_size_counterexample:
  "pill_width (hd (pills (run (drawSquare @ [Click 20 20]) initial))) = 20 \<and>
   pill_height (hd (pills (run (drawSquare @ [Click 20 20]) initial))) = 20 \<and>
   \<not> MIN_SIZE \<le> pill_width (hd (pills (run (drawSquare @ [Click 20 20]) initial)))"
  by (simp add: run_square_click_20 MIN_SIZE_def)

text \<open>
  C2, amended: in every state the program reaches, every pill in the store has width
  and height at least 20 (the split margin), and the pill under construction, hence every
  pill at the moment a draw gesture commits it, has width and height at least 40.  Every
  operation preserves this; the pills a split emits are at least 20 wide and high, not
  40.
\<close>

theorem store_sizes_invariant:
  "(\<forall>p\<in>set (pills (run es initial)). 20 \<le> pill_width p \<and> 20 \<le> pill_height p) \<and>
   (\<forall>c. currentPill (run es initial) = Some c \<longrightarrow>
      MIN_SIZE \<le> pill_width c \<and> MIN_SIZE \<le> pill_height c)"
  using sizesOk_run [of es] by (simp add: sizesOk_def)

theorem store_sizes_invariant_witness:
  "length (pills (run (drawSquare @ [Click 20 20]) initial)) = 4 \<and>
   list_all (\<lambda>p. 20 \<le> pill_width p \<and> 20 \<le> pill_height p)
     (pills (run (drawSquare @ [Click 20 20]) initial)) \<and>
   currentPill (run [MouseDown 7 9 2] initial) \<noteq> None \<and>
   MIN_SIZE \<le> pill_width (the (currentPill (run [MouseDown 7 9 2] initial)))"
proof -
  have d: "currentPill (run [MouseDown 7 9 2] initial) \<noteq> None"
    by (simp add: run_def handleMouseDown_def createPill_def)
  show ?thesis
    using store_sizes_invariant [of "drawSquare @ [Click 20 20]"]
      store_sizes_invariant [of "[MouseDown 7 9 2]"] d
    by (auto simp: list_all_iff run_square_click_20)
qed

section \<open>The origins of the pills\<close>

lemma clickPill_origins:
  assumes "0 \<le> pill_x p" "0 \<le> pill_y p"
  shows "\<forall>q\<in>set (fst (clickPill cx cy ([], k) p)). 0 \<le> pill_x q \<and> 0 \<le> pill_y q"
  using assms
  by (auto simp: clickPill_def Let_def createPill_def splitX_def splitY_def nudged_def
      intersectsV_def intersectsH_def)

lemma originsOk_step: "originsOk s \<Longrightarrow> pointerOnSurface e \<Longrightarrow> originsOk (step s e)"
proof (cases e)
  case (Click cx cy)
  assume ok: "originsOk s"
  have "\<forall>q\<in>set (fst (foldl (clickPill cx cy) ([], nextIdRef s) (pills s))).
          0 \<le> pill_x q \<and> 0 \<le> pill_y q"
  proof (rule foldl_clickPill_all)
    fix p k
    assume "p \<in> set (pills s)"
    then have "0 \<le> pill_x p" "0 \<le> pill_y p"
      using ok by (simp_all add: originsOk_def)
    then show "\<forall>q\<in>set (fst (clickPill cx cy ([], k) p)). 0 \<le> pill_x q \<and> 0 \<le> pill_y q"
      by (rule clickPill_origins)
  qed
  then show ?thesis
    using ok by (simp add: Click originsOk_def handleClick_pills handleClick_other)
qed (auto simp: originsOk_def handleMouseDown_def createPill_def handlePillMouseDown_def
      handleMouseMove_def Let_def handleMouseUp_def timeoutFired_def MIN_SIZE_def
      split: option.splits)

lemma originsOk_run:
  assumes "list_all pointerOnSurface es"
  shows "originsOk (run es initial)"
proof (rule run_invariant)
  show "originsOk initial"
    by (simp add: originsOk_def initial_def)
next
  fix t e
  assume "originsOk t" "e \<in> set es"
  then show "originsOk (step t e)"
    using assms by (simp add: originsOk_step list_all_iff)
qed

lemma drag_clamps:
  assumes "isDragging s" "draggedPill s = Some d" "p \<in> set (pills (handleMouseMove mx my s))"
    "pill_id p = pill_id d"
  shows "0 \<le> pill_x p \<and> 0 \<le> pill_y p"
  using assms by (auto simp: handleMouseMove_def Let_def)

text \<open>
  As long as the pointer of every press on the surface and of every move has local
  coordinates that are not negative, every shape of every reachable state, in the store
  or under construction, has a non-negative origin: split and nudge keep the origins
  non-negative for any click, and a drag clamps wherever the pointer is.
\<close>

lemma origins_nonnegative_on_surface:
  assumes "list_all pointerOnSurface es"
  shows "(\<forall>p\<in>set (shapes (run es initial)). 0 \<le> pill_x p \<and> 0 \<le> pill_y p) \<and>
    (\<forall>p\<in>set (pills (handleMouseMove mx my s)).
       isDragging s \<and> (\<exists>d. draggedPill s = Some d \<and> pill_id p = pill_id d) \<longrightarrow>
       0 \<le> pill_x p \<and> 0 \<le> pill_y p)"
proof -
  have "originsOk (run es initial)"
    using assms by (rule originsOk_run)
  then have "\<forall>p\<in>set (shapes (run es initial)). 0 \<le> pill_x p \<and> 0 \<le> pill_y p"
    by (auto simp: originsOk_def shapes_def split: option.splits)
  then show ?thesis
    using drag_clamps [of s _ _ mx my] by blast
qed


section \<open>The ids of the pills\<close>

lemma clickPill_ids:
  assumes "clickPill cx cy ([], k) p = (qs, m)"
  shows "k \<le> m \<and> distinct (map pill_id qs) \<and>
     (\<forall>q\<in>set qs. (k \<le> pill_id q \<and> pill_id q < m) \<or>
                   (q = p \<and> \<not> intersectsV cx p \<and> \<not> intersectsH cy p))"
  using assms
  by (auto simp: clickPill_def Let_def createPill_def nudged_def canSplitV_def canSplitH_def
      split: if_splits)

lemma foldl_clickPill_ids:
  assumes "distinct (map pill_id ps)" "\<forall>p\<in>set ps. pill_id p < n"
    and "foldl (clickPill cx cy) ([], n) ps = (qs, m)"
  shows "n \<le> m \<and> distinct (map pill_id qs) \<and>
     (\<forall>q\<in>set qs. pill_id q < m \<and>
        (pill_id q < n \<longrightarrow> q \<in> set ps \<and> \<not> intersectsV cx q \<and> \<not> intersectsH cy q))"
  using assms
proof (induction ps arbitrary: qs m rule: rev_induct)
  case Nil
  then show ?case by simp
next
  case (snoc p ps)
  obtain A k where f: "foldl (clickPill cx cy) ([], n) ps = (A, k)"
    by (cases "foldl (clickPill cx cy) ([], n) ps")
  obtain B l where c: "clickPill cx cy ([], k) p = (B, l)"
    by (cases "clickPill cx cy ([], k) p")
  have res: "qs = A @ B" "m = l"
    using snoc.prems(3) unfolding foldl_clickPill_snoc by (simp_all add: f c)
  have ih: "n \<le> k" "distinct (map pill_id A)"
    "\<forall>q\<in>set A. pill_id q < k \<and>
        (pill_id q < n \<longrightarrow> q \<in> set ps \<and> \<not> intersectsV cx q \<and> \<not> intersectsH cy q)"
    using snoc.IH [OF _ _ f] snoc.prems(1,2) by simp_all
  have st: "k \<le> l" "distinct (map pill_id B)"
    "\<forall>q\<in>set B. (k \<le> pill_id q \<and> pill_id q < l) \<or>
                   (q = p \<and> \<not> intersectsV cx p \<and> \<not> intersectsH cy p)"
    using clickPill_ids [OF c] by simp_all
  have pid: "pill_id p < n" "pill_id p \<notin> pill_id ` set ps"
    using snoc.prems(1,2) by simp_all
  have disj: "pill_id ` set A \<inter> pill_id ` set B = {}"
  proof (rule ccontr)
    assume "pill_id ` set A \<inter> pill_id ` set B \<noteq> {}"
    then obtain a b where ab: "a \<in> set A" "b \<in> set B" "pill_id a = pill_id b"
      by (auto simp: image_iff)
    from st(3) ab(2) consider "k \<le> pill_id b" | "b = p" by blast
    then show False
    proof cases
      case 1
      then show False using ih(3) ab(1,3) by auto
    next
      case 2
      then have "pill_id a < n" using pid(1) ab(3) by simp
      then have "a \<in> set ps" using ih(3) ab(1) by blast
      then have "pill_id a \<in> pill_id ` set ps" by (rule imageI)
      then show False using pid(2) ab(3) 2 by simp
    qed
  qed
  have "distinct (map pill_id (A @ B))"
    using ih(2) st(2) disj by simp
  moreover have "\<forall>q\<in>set (A @ B). pill_id q < l \<and>
        (pill_id q < n \<longrightarrow> q \<in> set (ps @ [p]) \<and> \<not> intersectsV cx q \<and> \<not> intersectsH cy q)"
    using ih(1,3) st(1,3) pid(1) by (auto simp: not_le)
  ultimately show ?case
    using ih(1) st(1) by (simp add: res)
qed

lemma map_id_drag:
  "map pill_id (map (\<lambda>pill. if pill_id pill = i then pill\<lparr> pill_x := a, pill_y := b \<rparr> else pill) ps)
     = map pill_id ps"
  by (induction ps) simp_all

lemma ids_step:
  assumes "idsOk s"
  shows "idsOk (step s e) \<and> nextIdRef s \<le> nextIdRef (step s e) \<and>
     (\<forall>q\<in>set (shapes (step s e)).
        pill_id q < nextIdRef s \<longrightarrow> pill_id q \<in> pill_id ` set (shapes s))"
proof (cases e)
  case (Click cx cy)
  show ?thesis
  proof (cases "isDrawing s \<or> isDragging s \<or> hasMoved s")
    case True
    then have "step s e = s" by (simp add: Click handleClick_def)
    then show ?thesis using assms by simp
  next
    case False
    obtain qs m where f: "foldl (clickPill cx cy) ([], nextIdRef s) (pills s) = (qs, m)"
      by (cases "foldl (clickPill cx cy) ([], nextIdRef s) (pills s)")
    have pre: "distinct (map pill_id (pills s))" "\<forall>p\<in>set (pills s). pill_id p < nextIdRef s"
      using assms by (simp_all add: idsOk_def shapes_def)
    have post: "nextIdRef s \<le> m" "distinct (map pill_id qs)"
      "\<forall>q\<in>set qs. pill_id q < m \<and> (pill_id q < nextIdRef s \<longrightarrow> q \<in> set (pills s))"
      using foldl_clickPill_ids [OF pre f] by simp_all
    have st: "pills (step s e) = qs" "nextIdRef (step s e) = m"
      "currentPill (step s e) = currentPill s"
      using False by (simp_all add: Click handleClick_pills handleClick_nextIdRef handleClick_other f)
    show ?thesis
    proof (cases "currentPill s")
      case None
      then show ?thesis
        using post by (auto simp: idsOk_def shapes_def st)
    next
      case (Some c)
      have c: "pill_id c < nextIdRef s" "pill_id c \<notin> pill_id ` set (pills s)"
        using assms Some by (auto simp: idsOk_def shapes_def)
      have "pill_id c \<notin> pill_id ` set qs"
      proof
        assume "pill_id c \<in> pill_id ` set qs"
        then obtain q where q: "q \<in> set qs" "pill_id q = pill_id c" by auto
        then have "q \<in> set (pills s)" using post(3) c(1) by auto
        then have "pill_id q \<in> pill_id ` set (pills s)" by (rule imageI)
        then show False using c(2) q(2) by simp
      qed
      then show ?thesis
        using post c by (auto simp: idsOk_def shapes_def st Some)
    qed
  qed
next
  case (MouseMove mx my)
  have m: "map pill_id (shapes (step s e)) = map pill_id (shapes s)"
    by (simp add: MouseMove shapes_def handleMouseMove_def Let_def map_id_drag
        split: option.splits)
  have n: "nextIdRef (step s e) = nextIdRef s"
    by (simp add: MouseMove handleMouseMove_def Let_def split: option.splits)
  have i: "pill_id ` set (shapes (step s e)) = pill_id ` set (shapes s)"
    using m by (metis set_map)
  have "idsOk (step s e)"
    using assms unfolding idsOk_def m n .
  moreover have "\<forall>q\<in>set (shapes (step s e)). pill_id q \<in> pill_id ` set (shapes s)"
    using i by blast
  ultimately show ?thesis
    by (simp add: n)
next
  case (MouseDown mx my r)
  show ?thesis
    using assms
    by (auto simp: MouseDown idsOk_def shapes_def handleMouseDown_def createPill_def
        split: option.splits)
next
  case (PillMouseDown mx my i)
  show ?thesis
    using assms
    by (auto simp: PillMouseDown idsOk_def shapes_def handlePillMouseDown_def)
next
  case MouseUp
  show ?thesis
    using assms
    by (auto simp: MouseUp idsOk_def shapes_def handleMouseUp_def split: option.splits)
next
  case Timeout
  show ?thesis
    using assms
    by (auto simp: Timeout idsOk_def shapes_def timeoutFired_def)
qed

lemma idsOk_run: "idsOk (run es initial)"
proof (rule run_invariant)
  show "idsOk initial"
    by (simp add: idsOk_def shapes_def initial_def)
next
  fix t e
  assume "idsOk t"
  then show "idsOk (step t e)"
    using ids_step by blast
qed


lemma ids_run_extend:
  "nextIdRef (run es initial) \<le> nextIdRef (run (es @ es') initial) \<and>
   (\<forall>q\<in>set (shapes (run (es @ es') initial)).
      pill_id q < nextIdRef (run es initial) \<longrightarrow>
      pill_id q \<in> pill_id ` set (shapes (run es initial)))"
proof (induction es' rule: rev_induct)
  case Nil
  show ?case by simp
next
  case (snoc e es')
  let ?t = "run es initial"
  let ?u = "run (es @ es') initial"
  have r: "run (es @ es' @ [e]) initial = step ?u e"
    by (simp add: run_def)
  have st: "nextIdRef ?u \<le> nextIdRef (step ?u e)"
    "\<forall>q\<in>set (shapes (step ?u e)).
        pill_id q < nextIdRef ?u \<longrightarrow> pill_id q \<in> pill_id ` set (shapes ?u)"
    using ids_step [OF idsOk_run, of "es @ es'" e] by simp_all
  have "pill_id q \<in> pill_id ` set (shapes ?t)"
    if q: "q \<in> set (shapes (step ?u e))" "pill_id q < nextIdRef ?t" for q
  proof -
    have "pill_id q < nextIdRef ?u" using q(2) snoc.IH by simp
    then have "pill_id q \<in> pill_id ` set (shapes ?u)" using st(2) q(1) by blast
    then obtain q' where q': "q' \<in> set (shapes ?u)" "pill_id q' = pill_id q" by auto
    then show ?thesis using snoc.IH q(2) by metis
  qed
  then show ?case
    using snoc.IH st(1) by (simp add: r)
qed

text \<open>
  C9: ids are handed out in strictly increasing order and never reused.  Every id
  allocated so far lies below the counter (\<open>createPill\<close> and the nudge hand out the
  counter itself and increment it), the counter never decreases, the shapes of a state
  carry pairwise different ids, and a shape that carries an id below the counter of an
  earlier state carries an id that a shape of that earlier state carried: an id handed
  out later is not below the earlier counter, and an id that has left the collection
  does not come back.
\<close>

theorem ids_strictly_increasing:
  "nextIdRef (run es initial) \<le> nextIdRef (run (es @ es') initial) \<and>
   distinct (map pill_id (shapes (run (es @ es') initial))) \<and>
   (\<forall>q\<in>set (shapes (run (es @ es') initial)).
      pill_id q < nextIdRef (run (es @ es') initial) \<and>
      (pill_id q < nextIdRef (run es initial) \<longrightarrow>
         pill_id q \<in> pill_id ` set (shapes (run es initial)))) \<and>
   pill_id (fst (createPill n px py w h c br)) = n \<and>
   snd (createPill n px py w h c br) = Suc n \<and>
   pill_id (nudged cx cy n p) = n"
proof -
  have "idsOk (run (es @ es') initial)"
    by (rule idsOk_run)
  then have "distinct (map pill_id (shapes (run (es @ es') initial)))"
    "\<forall>q\<in>set (shapes (run (es @ es') initial)).
       pill_id q < nextIdRef (run (es @ es') initial)"
    by (simp_all add: idsOk_def)
  moreover have "pill_id (nudged cx cy n p) = n"
    by (simp add: nudged_def Let_def)
  ultimately show ?thesis
    using ids_run_extend [of es es'] by (simp add: createPill_def)
qed

theorem ids_strictly_increasing_witness:
  "nextIdRef (run drawSquare initial) = 1 \<and>
   map pill_id (shapes (run drawSquare initial)) = [0] \<and>
   nextIdRef (run (drawSquare @ [Click 20 20]) initial) = 5 \<and>
   map pill_id (shapes (run (drawSquare @ [Click 20 20]) initial)) = [1, 2, 3, 4] \<and>
   distinct (map pill_id (shapes (run (drawSquare @ [Click 20 20]) initial)))"
  using ids_strictly_increasing [of drawSquare "[Click 20 20]"]
  by (simp add: run_square_click_20 run_drawSquare shapes_def squareState_def squarePill_def)


section \<open>The nudge\<close>



section \<open>Gestures\<close>

lemma run_Cons: "run (e # es) s = run es (step s e)"
  by (simp add: run_def)

lemma run_Nil: "run [] s = s"
  by (simp add: run_def)

lemma mouseMoves_Cons: "mouseMoves ((mx, my) # ms) = MouseMove mx my # mouseMoves ms"
  by (simp add: mouseMoves_def)

lemma mouseMoves_Nil: "mouseMoves [] = []"
  by (simp add: mouseMoves_def)

lemma handleMouseMove_same:
  "startPos (handleMouseMove mx my s) = startPos s"
  "isDragging (handleMouseMove mx my s) = isDragging s"
  "draggedPill (handleMouseMove mx my s) = draggedPill s"
  "nextIdRef (handleMouseMove mx my s) = nextIdRef s"
  "currentPill (handleMouseMove mx my s) = None \<longleftrightarrow> currentPill s = None"
  by (simp_all add: handleMouseMove_def Let_def split: option.splits)

lemma handleMouseMove_isDrawing:
  "isDrawing (handleMouseMove mx my s) \<longleftrightarrow>
     isDrawing s \<or> (currentPill s \<noteq> None \<and> crossesThreshold (startPos s) (mx, my))"
  by (auto simp: handleMouseMove_def Let_def crossesThreshold_def split: option.splits)

lemma handleMouseMove_hasMoved:
  "hasMoved (handleMouseMove mx my s) \<longleftrightarrow>
     hasMoved s \<or>
     (currentPill s \<noteq> None \<and> \<not> isDrawing s \<and> crossesThreshold (startPos s) (mx, my)) \<or>
     (isDragging s \<and> draggedPill s \<noteq> None)"
  by (auto simp: handleMouseMove_def Let_def crossesThreshold_def split: option.splits)

lemma hasMoved_moves:
  "hasMoved s \<Longrightarrow> hasMoved (run (mouseMoves ms) s)"
proof (induction ms arbitrary: s)
  case Nil
  then show ?case by (simp add: mouseMoves_Nil run_Nil)
next
  case (Cons m ms)
  obtain mx my where m: "m = (mx, my)" by (cases m)
  have "hasMoved (handleMouseMove mx my s)"
    using Cons.prems by (simp add: handleMouseMove_hasMoved)
  then show ?case
    using Cons.IH by (simp add: m mouseMoves_Cons run_Cons)
qed

lemma drag_moves:
  assumes "isDragging s" "draggedPill s \<noteq> None" "ms \<noteq> []"
  shows "hasMoved (run (mouseMoves ms) s)"
proof -
  obtain mx my ms' where ms: "ms = (mx, my) # ms'"
    using assms(3) by (cases ms) auto
  have "hasMoved (handleMouseMove mx my s)"
    using assms(1,2) by (simp add: handleMouseMove_hasMoved)
  then show ?thesis
    using hasMoved_moves by (simp add: ms mouseMoves_Cons run_Cons)
qed

lemma draw_moves:
  assumes "currentPill s \<noteq> None" "isDrawing s \<longrightarrow> hasMoved s"
    and "list_ex (crossesThreshold (startPos s)) ms"
  shows "hasMoved (run (mouseMoves ms) s)"
  using assms
proof (induction ms arbitrary: s)
  case Nil
  then show ?case by simp
next
  case (Cons m ms)
  obtain mx my where m: "m = (mx, my)" by (cases m)
  let ?t = "handleMouseMove mx my s"
  show ?case
  proof (cases "crossesThreshold (startPos s) m")
    case True
    then have "hasMoved ?t"
      using Cons.prems(1,2) by (auto simp: handleMouseMove_hasMoved m)
    then show ?thesis
      using hasMoved_moves by (simp add: m mouseMoves_Cons run_Cons)
  next
    case False
    then have rest: "list_ex (crossesThreshold (startPos ?t)) ms"
      using Cons.prems(3) by (simp add: handleMouseMove_same)
    have "currentPill ?t \<noteq> None"
      using Cons.prems(1) by (simp add: handleMouseMove_same)
    moreover have "isDrawing ?t \<longrightarrow> hasMoved ?t"
      using Cons.prems(2) False
      by (auto simp: handleMouseMove_isDrawing handleMouseMove_hasMoved m)
    ultimately have "hasMoved (run (mouseMoves ms) ?t)"
      using rest by (rule Cons.IH)
    then show ?thesis
      by (simp add: m mouseMoves_Cons run_Cons)
  qed
qed

lemma moved_gesture_hasMoved:
  assumes "movedGesture press ms s"
  shows "hasMoved (run (press # mouseMoves ms) s)"
proof (cases press)
  case (MouseDown mx my r)
  let ?t = "handleMouseDown mx my r s"
  have t: "currentPill ?t \<noteq> None" "isDrawing ?t = isDrawing s" "startPos ?t = (mx, my)"
    by (simp_all add: handleMouseDown_def createPill_def)
  have "hasMoved (run (mouseMoves ms) ?t)"
    using assms by (intro draw_moves) (simp_all add: t MouseDown)
  then show ?thesis
    by (simp add: MouseDown run_Cons)
next
  case (PillMouseDown mx my i)
  let ?t = "handlePillMouseDown mx my (pills s ! i) s"
  have "hasMoved (run (mouseMoves ms) ?t)"
    using assms by (intro drag_moves) (simp_all add: handlePillMouseDown_def PillMouseDown)
  then show ?thesis
    using assms by (simp add: PillMouseDown run_Cons)
qed (use assms in simp_all)

lemma handleMouseMove_potential:
  assumes "\<not> isDrawing t" "\<not> isDragging t" "\<not> crossesThreshold (startPos t) (mx, my)"
  shows "handleMouseMove mx my t = t\<lparr> mousePos := (mx, my) \<rparr>"
  using assms
  by (auto simp: handleMouseMove_def Let_def crossesThreshold_def split: option.splits)

lemma potential_moves:
  assumes "\<not> isDrawing t" "\<not> isDragging t"
    and "list_all (\<lambda>m. \<not> crossesThreshold (startPos t) m) ms"
  shows "\<exists>mp. run (mouseMoves ms) t = t\<lparr> mousePos := mp \<rparr>"
  using assms
proof (induction ms arbitrary: t)
  case Nil
  have "t = t\<lparr> mousePos := mousePos t \<rparr>" by simp
  then show ?case unfolding mouseMoves_Nil run_Nil by blast
next
  case (Cons m ms)
  obtain mx my where m: "m = (mx, my)" by (cases m)
  let ?u = "t\<lparr> mousePos := (mx, my) \<rparr>"
  have u: "handleMouseMove mx my t = ?u"
    using Cons.prems by (intro handleMouseMove_potential) (simp_all add: m)
  have "\<exists>mp. run (mouseMoves ms) ?u = ?u\<lparr> mousePos := mp \<rparr>"
    using Cons.prems by (intro Cons.IH) simp_all
  then show ?case
    by (simp add: m mouseMoves_Cons run_Cons u)
qed

lemma handleMouseUpFrom_same: "handleMouseUpFrom s s = handleMouseUp s"
  by (simp add: handleMouseUpFrom_def handleMouseUp_def)






lemma discarded_press:
  assumes "\<not> isDrawing s" "\<not> isDragging s"
    and "list_all (\<lambda>m. \<not> crossesThreshold (mx, my) m) ms"
  shows "pills (run (MouseDown mx my r # mouseMoves ms @ [MouseUp]) s) = pills s \<and>
     currentPill (run (MouseDown mx my r # mouseMoves ms @ [MouseUp]) s) = None \<and>
     nextIdRef (run (MouseDown mx my r # mouseMoves ms @ [MouseUp]) s) = Suc (nextIdRef s)"
proof -
  define t0 where "t0 = handleMouseDown mx my r s"
  have t0: "\<not> isDrawing t0" "\<not> isDragging t0" "startPos t0 = (mx, my)"
    "pills t0 = pills s" "nextIdRef t0 = Suc (nextIdRef s)"
    using assms(1,2) by (simp_all add: t0_def handleMouseDown_def createPill_def)
  obtain mp where r: "run (mouseMoves ms) t0 = t0\<lparr> mousePos := mp \<rparr>"
    using potential_moves [OF t0(1,2), of ms] assms(3) by (auto simp: t0(3))
  have "run (MouseDown mx my r # mouseMoves ms @ [MouseUp]) s =
      handleMouseUp (t0\<lparr> mousePos := mp \<rparr>)"
    using run_append [of "mouseMoves ms" "[MouseUp]" t0]
    by (simp add: run_Cons run_Nil t0_def [symmetric] r)
  then show ?thesis
    using t0 by (simp add: handleMouseUp_def split: option.splits)
qed

subsection \<open>The click after a gesture that moved\<close>

text \<open>
  From rest, the click after a gesture that moved is a no-op: after a press on a pill
  and at least one move, in any state, and after a press on the surface, with no
  drawing in progress, and a move across the threshold, the state after the click is
  the state after the release (no deferred reset of an earlier release running in
  between).
\<close>

lemma moved_gesture_click_noop:
  assumes "movedGesture press ms s"
  shows "run (press # mouseMoves ms @ [MouseUp, Click cx cy]) s =
         run (press # mouseMoves ms @ [MouseUp]) s"
proof -
  let ?t = "run (press # mouseMoves ms) s"
  have "hasMoved ?t"
    using assms by (rule moved_gesture_hasMoved)
  then have "hasMoved (handleMouseUp ?t)"
    by (simp add: handleMouseUp_def)
  then have "handleClick cx cy (handleMouseUp ?t) = handleMouseUp ?t"
    by (simp add: handleClick_def)
  moreover have "run (press # mouseMoves ms @ [MouseUp, Click cx cy]) s =
      handleClick cx cy (handleMouseUp ?t)"
    using run_append [of "press # mouseMoves ms" "[MouseUp, Click cx cy]" s]
    by (simp add: run_Cons run_Nil)
  moreover have "run (press # mouseMoves ms @ [MouseUp]) s = handleMouseUp ?t"
    using run_append [of "press # mouseMoves ms" "[MouseUp]" s]
    by (simp add: run_Cons run_Nil)
  ultimately show ?thesis by simp
qed

lemma run_stuckDrawTrace:
  "run stuckDrawTrace initial = \<lparr> pills =
       [\<lparr> pill_id = 1, pill_x = 200, pill_y = 200, pill_width = 100, pill_height = 100,
          pill_color = ''#ef4444'', pill_borderRadius = Some ''20px'' \<rparr>],
     mousePos = (300, 300), currentPill = None, isDrawing = False, isDragging = False,
     draggedPill = None, dragOffset = (0, 0), startPos = (200, 200), nextIdRef = 2,
     hasMoved = False, pendingTimeouts = 1 \<rparr>"
  by (simp add: stuckDrawTrace_def initial_def handler_defs CORNER_RADIUS_def)

text \<open>
  C5: after a gesture in which the pointer moved, a draw or a drag, the click delivered
  after the release is a no-op.  The code breaks it when a drawing is still in progress
  at the press (the release of an earlier draw did not reach the surface): the press
  resets \<open>hasMoved\<close>, the moves of the new draw resize the draft and never set the flag,
  the release commits the pill drawn from \<open>(200, 200)\<close> to \<open>(300, 300)\<close>, and the click at
  the release point runs the split algorithm and replaces that pill by a nudged clone
  at \<open>(190, 190)\<close> with a new id.
\<close>

theorem click_after_draw_alters_store:
  "pills (run stuckDrawTrace initial) =
     [\<lparr> pill_id = 1, pill_x = 200, pill_y = 200, pill_width = 100, pill_height = 100,
        pill_color = ''#ef4444'', pill_borderRadius = Some ''20px'' \<rparr>] \<and>
   \<not> hasMoved (run stuckDrawTrace initial) \<and>
   pills (run (stuckDrawTrace @ [Click 300 300]) initial) =
     [\<lparr> pill_id = 2, pill_x = 190, pill_y = 190, pill_width = 100, pill_height = 100,
        pill_color = ''#ef4444'', pill_borderRadius = Some ''20px'' \<rparr>] \<and>
   pills (run (stuckDrawTrace @ [Click 300 300]) initial) \<noteq> pills (run stuckDrawTrace initial)"
  by (simp add: run_append run_stuckDrawTrace)
     (simp add: run_def handleClick_def click_defs CORNER_RADIUS_def)

text \<open>
  The deferred reset of an earlier release opens the same gate when it runs inside a
  later gesture: here a drag, whose move sets \<open>hasMoved\<close>, is followed by a click that
  splits the dragged pill in four.
\<close>

lemma stale_reset_lets_click_split:
  "hasMoved (run [MouseDown 0 0 0, MouseMove 50 50, MouseMove 100 100, MouseUp,
      PillMouseDown 50 50 0, MouseMove 60 60] initial) \<and>
   \<not> hasMoved (run [MouseDown 0 0 0, MouseMove 50 50, MouseMove 100 100, MouseUp,
      PillMouseDown 50 50 0, MouseMove 60 60, Timeout, MouseUp] initial) \<and>
   length (pills (run [MouseDown 0 0 0, MouseMove 50 50, MouseMove 100 100, MouseUp,
      PillMouseDown 50 50 0, MouseMove 60 60, Timeout, MouseUp] initial)) = 1 \<and>
   length (pills (run [MouseDown 0 0 0, MouseMove 50 50, MouseMove 100 100, MouseUp,
      PillMouseDown 50 50 0, MouseMove 60 60, Timeout, MouseUp, Click 60 60] initial)) = 4"
  by (simp add: initial_def handler_defs CORNER_RADIUS_def click_defs)

subsection \<open>What a draw gesture commits\<close>




subsection \<open>A press allocates an id, kept or not\<close>

lemma run_gap_trace:
  "map pill_id (pills (run (drawSquare @ [MouseDown 300 300 1, MouseUp, Timeout,
      MouseDown 200 200 2, MouseMove 250 250, MouseMove 300 300, MouseUp]) initial)) = [0, 2]"
  by (simp add: run_append run_drawSquare)
     (simp add: run_def squareState_def squarePill_def handleMouseDown_def createPill_def
        handleMouseMove_def handleMouseUp_def timeoutFired_def MIN_SIZE_def)

text \<open>
  C10: every press on the empty surface takes the counter as the id of the draft and
  increments the counter at press time.  When the gesture (started with no drawing or
  drag in progress) ends without a move across the draw threshold, the release
  discards the draft, the store is as before the press, and the counter stays
  incremented: the id is lost.  So the ids in the store can have gaps: after a first
  pill, a press that is released in place and a second pill, the store holds the ids 0
  and 2.
\<close>

theorem press_allocates_id_even_if_discarded:
  "nextIdRef (handleMouseDown mx my r s) = Suc (nextIdRef s) \<and>
   map_option pill_id (currentPill (handleMouseDown mx my r s)) = Some (nextIdRef s) \<and>
   (\<not> isDrawing s \<and> \<not> isDragging s \<and> list_all (\<lambda>m. \<not> crossesThreshold (mx, my) m) ms \<longrightarrow>
      pills (run (MouseDown mx my r # mouseMoves ms @ [MouseUp]) s) = pills s \<and>
      currentPill (run (MouseDown mx my r # mouseMoves ms @ [MouseUp]) s) = None \<and>
      nextIdRef (run (MouseDown mx my r # mouseMoves ms @ [MouseUp]) s) = Suc (nextIdRef s)) \<and>
   map pill_id (pills (run (drawSquare @ [MouseDown 300 300 1, MouseUp, Timeout,
      MouseDown 200 200 2, MouseMove 250 250, MouseMove 300 300, MouseUp]) initial)) = [0, 2]"
proof -
  have "nextIdRef (handleMouseDown mx my r s) = Suc (nextIdRef s)"
    "map_option pill_id (currentPill (handleMouseDown mx my r s)) = Some (nextIdRef s)"
    by (simp_all add: handleMouseDown_def createPill_def)
  then show ?thesis
    using discarded_press [of s mx my ms r] run_gap_trace by blast
qed

theorem press_allocates_id_even_if_discarded_witness:
  "\<not> isDrawing squareState \<and> \<not> isDragging squareState \<and>
   list_all (\<lambda>m. \<not> crossesThreshold (300, 300) m) [(302, 303), (300, 300)] \<and>
   nextIdRef squareState = 1 \<and>
   pills (run (MouseDown 300 300 1 # mouseMoves [(302, 303), (300, 300)] @ [MouseUp])
     squareState) = [squarePill] \<and>
   nextIdRef (run (MouseDown 300 300 1 # mouseMoves [(302, 303), (300, 300)] @ [MouseUp])
     squareState) = 2"
proof -
  have a: "\<not> isDrawing squareState" "\<not> isDragging squareState" "nextIdRef squareState = 1"
    "pills squareState = [squarePill]"
    by (simp_all add: squareState_def)
  have b: "list_all (\<lambda>m. \<not> crossesThreshold (300, 300) m) [(302, 303), (300, 300)]"
    by (simp add: crossesThreshold_def)
  show ?thesis
    using press_allocates_id_even_if_discarded
        [of 300 300 1 squareState "[(302, 303), (300, 300)]"] a b
    by simp
qed

end
